theory Spec2Isabelle
  imports Complex_Main "HOL-Library.Word"
begin

section \<open>The chord diagram renderer of kube-netflow\<close>

text \<open>
  This theory embeds \<^verbatim>\<open>ChordDiagram.Plot\<close>, \<^verbatim>\<open>pointOnCircle\<close> and
  \<^verbatim>\<open>drawChord\<close> of \<^verbatim>\<open>main.go\<close>.

  Numbers. Go's \<^verbatim>\<open>float64\<close> and \<^verbatim>\<open>vg.Length\<close> are modelled by \<^typ>\<open>real\<close>:
  arithmetic is exact, and the non-finite values of IEEE 754 (infinities, NaN) are not
  values of the model. Loop counters and indices (Go \<^verbatim>\<open>int\<close>, never negative here)
  are \<^typ>\<open>nat\<close>; colour channels (\<^verbatim>\<open>uint8\<close>) are \<^typ>\<open>8 word\<close>.

  The canvas. \<^verbatim>\<open>draw.Canvas\<close> belongs to the plotting library, not to this program.
  It is modelled as a recorder: a canvas has a size and the list of the calls made on it,
  in order. Every method the renderer calls appends one entry.
\<close>

subsection \<open>Data\<close>

record Point =
  X :: real
  Y :: real

record RGBA =
  R :: "8 word"
  G :: "8 word"
  B :: "8 word"
  A :: "8 word"

datatype PathComp =
    MoveComp Point
  | ArcComp Point real real real
  | CurveComp Point Point Point

type_synonym Path = "PathComp list"

datatype XAlignment = XLeft | XCenter | XRight

datatype YAlignment = YTop | YCenter | YBottom

text \<open>
  \<^verbatim>\<open>draw.TextStyle\<close>. The font and the text handler are the library's defaults in every
  style the renderer builds; only the font size is kept.
\<close>

record TextStyle =
  TextColor :: RGBA
  FontSize :: real
  Rotation :: real
  XAlign :: XAlignment
  YAlign :: YAlignment

datatype CanvasCall =
    SetLineWidth real
  | SetColor RGBA
  | Stroke Path
  | FillText TextStyle Point string

record Canvas =
  Size :: Point
  calls :: "CanvasCall list"

text \<open>
  \<^verbatim>\<open>ChordDiagram\<close>. A nil \<^verbatim>\<open>Labels\<close> slice is \<open>None\<close>; a non-nil slice, empty or
  not, is \<open>Some\<close>. The \<^verbatim>\<open>Color\<close> field is taken to be a total function that
  returns its colour already in the \<^verbatim>\<open>color.RGBA\<close> model, on which
  \<^verbatim>\<open>color.RGBAModel.Convert\<close> is the identity.
\<close>

record ChordDiagram =
  Flow :: "real list list"
  Labels :: "string list option"
  Color :: "nat \<Rightarrow> nat \<Rightarrow> RGBA"

datatype panic = IndexOutOfRange

subsection \<open>Canvas methods\<close>

definition canvas_SetLineWidth :: "Canvas \<Rightarrow> real \<Rightarrow> Canvas" where
  "canvas_SetLineWidth canvas w = canvas\<lparr>calls := calls canvas @ [SetLineWidth w]\<rparr>"

definition canvas_SetColor :: "Canvas \<Rightarrow> RGBA \<Rightarrow> Canvas" where
  "canvas_SetColor canvas clr = canvas\<lparr>calls := calls canvas @ [SetColor clr]\<rparr>"

definition canvas_Stroke :: "Canvas \<Rightarrow> Path \<Rightarrow> Canvas" where
  "canvas_Stroke canvas path = canvas\<lparr>calls := calls canvas @ [Stroke path]\<rparr>"

definition canvas_FillText :: "Canvas \<Rightarrow> TextStyle \<Rightarrow> Point \<Rightarrow> string \<Rightarrow> Canvas" where
  "canvas_FillText canvas sty pt txt = canvas\<lparr>calls := calls canvas @ [FillText sty pt txt]\<rparr>"

subsection \<open>Formatting\<close>

text \<open>
  \<^verbatim>\<open>fmt.Sprintf("%.1f MB", v)\<close> for a finite \<open>v\<close>: an optional minus sign, the decimal
  digits of the integer part, a point and one fractional digit, the value rounded to the
  nearest tenth with ties going to the even digit, then the suffix.
\<close>

definition digit_char :: "nat \<Rightarrow> char" where
  "digit_char d = char_of (48 + d)"

fun decimal :: "nat \<Rightarrow> string" where
  "decimal n = (if n < 10 then [digit_char n] else decimal (n div 10) @ [digit_char (n mod 10)])"

declare decimal.simps [simp del]

definition round_half_even :: "real \<Rightarrow> int" where
  "round_half_even v =
     (let f = \<lfloor>v\<rfloor>; d = v - of_int f
      in if d < 1 / 2 then f
         else if 1 / 2 < d then f + 1
         else if even f then f else f + 1)"

definition format_f1 :: "real \<Rightarrow> string" where
  "format_f1 v =
     (let m = nat (round_half_even (\<bar>v\<bar> * 10))
      in (if v < 0 then ''-'' else '''') @ decimal (m div 10) @ ''.'' @ [digit_char (m mod 10)])"

definition Sprintf_MB :: "real \<Rightarrow> string" where
  "Sprintf_MB v = format_f1 v @ '' MB''"

subsection \<open>Geometry and chords\<close>

definition pointOnCircle :: "Point \<Rightarrow> real \<Rightarrow> real \<Rightarrow> Point" where
  "pointOnCircle origin radius angle =
     \<lparr>X = X origin + radius * cos angle, Y = Y origin + radius * sin angle\<rparr>"

definition drawChord ::
  "Canvas \<Rightarrow> Point \<Rightarrow> real \<Rightarrow> nat \<Rightarrow> nat \<Rightarrow> nat \<Rightarrow> real \<Rightarrow> RGBA \<Rightarrow> Canvas" where
  "drawChord canvas origin radius i j n weight clr =
     (let angleStep = 2 * pi / real n;
          angle1 = real i * angleStep;
          angle2 = real j * angleStep;
          start = pointOnCircle origin radius angle1;
          end = pointOnCircle origin radius angle2;
          ctrl1 = \<lparr>X = X origin + radius * 0.5 * cos angle1,
                   Y = Y origin + radius * 0.5 * sin angle1\<rparr>;
          ctrl2 = \<lparr>X = X origin + radius * 0.5 * cos angle2,
                   Y = Y origin + radius * 0.5 * sin angle2\<rparr>;
          path = [MoveComp start] @ [CurveComp ctrl1 ctrl2 end];
          canvas1 = canvas_SetLineWidth canvas (weight * 3);
          rgba = clr\<lparr>A := of_nat (min 255 (unat (A clr) + 100))\<rparr>;
          canvas2 = canvas_SetColor canvas1 rgba
      in canvas_Stroke canvas2 path)"

subsection \<open>The render call\<close>

text \<open>The inner loop of lines 108 to 111: the sum of the first \<open>n\<close> entries of row \<open>i\<close>.\<close>

function rowTotal :: "real list \<Rightarrow> nat \<Rightarrow> nat \<Rightarrow> real \<Rightarrow> panic + real" where
  "rowTotal row n j totalBytes =
     (if j < n
      then (if j < length row then rowTotal row n (Suc j) (totalBytes + row ! j)
            else Inl IndexOutOfRange)
      else Inr totalBytes)"
  by pat_completeness auto
termination
  by (relation "measure (\<lambda>(row, n, j, totalBytes). n - j)") auto

declare rowTotal.simps [simp del]

definition black :: RGBA where
  "black = \<lparr>R = 0, G = 0, B = 0, A = 255\<rparr>"

definition labelStyle :: TextStyle where
  "labelStyle = \<lparr>TextColor = black, FontSize = 12, Rotation = 0, XAlign = XLeft, YAlign = YBottom\<rparr>"

text \<open>
  The body of the loop of lines 73 to 124, for node \<open>i\<close>. The two text styles are set
  anew in every iteration before they are used, so nothing is carried from one
  iteration to the next.
\<close>

definition Plot_node ::
  "ChordDiagram \<Rightarrow> Point \<Rightarrow> real \<Rightarrow> nat \<Rightarrow> real \<Rightarrow> nat \<Rightarrow> Canvas \<Rightarrow> Canvas \<times> panic option" where
  "Plot_node c origin radius n angleStep i canvas =
     (let angle = real i * angleStep;
          startAngle = angle - angleStep / 3;
          endAngle = angle + angleStep / 3;
          path = [MoveComp (pointOnCircle origin radius startAngle)]
                 @ [ArcComp origin radius startAngle (endAngle - startAngle)];
          canvas1 = canvas_SetLineWidth canvas 2;
          canvas2 = canvas_SetColor canvas1 \<lparr>R = 100, G = 100, B = 100, A = 255\<rparr>;
          canvas3 = canvas_Stroke canvas2 path
      in case Labels c of
           None \<Rightarrow> (canvas3, None)
         | Some labels \<Rightarrow>
            (let baseAngle = angle;
                 basePos = pointOnCircle origin (radius * 1.07) baseAngle;
                 baseRotation = (if pi / 2 < baseAngle \<and> baseAngle < 3 * pi / 2
                                 then baseAngle + pi else baseAngle);
                 baseLabelStyle = labelStyle\<lparr>Rotation := baseRotation,
                                    XAlign := XCenter, YAlign := YCenter\<rparr>;
                 bgBaseStyle = baseLabelStyle\<lparr>TextColor := \<lparr>R = 255, G = 255, B = 255, A = 220\<rparr>\<rparr>
             in if \<not> i < length labels then (canvas3, Some IndexOutOfRange)
                else
                  (let canvas4 = canvas_FillText canvas3 bgBaseStyle basePos (labels ! i);
                       canvas5 = canvas_FillText canvas4 baseLabelStyle basePos (labels ! i);
                       labelAngle = angle;
                       labelRotation = (if pi / 2 < labelAngle \<and> labelAngle < 3 * pi / 2
                                        then labelAngle + pi / 2 + pi else labelAngle + pi / 2)
                   in case rowTotal (Flow c ! i) n 0 0 of
                        Inl e \<Rightarrow> (canvas5, Some e)
                      | Inr totalBytes \<Rightarrow>
                         (let statsLabel = Sprintf_MB (totalBytes / 1024 / 1024);
                              labelPos = pointOnCircle origin (radius * 1.15) angle;
                              outerLabelStyle = labelStyle\<lparr>Rotation := labelRotation,
                                                  XAlign := XCenter, YAlign := YCenter\<rparr>;
                              bgStyle = outerLabelStyle\<lparr>TextColor := \<lparr>R = 255, G = 255, B = 255, A = 220\<rparr>\<rparr>;
                              canvas6 = canvas_FillText canvas5 bgStyle labelPos statsLabel;
                              canvas7 = canvas_FillText canvas6 outerLabelStyle labelPos statsLabel
                          in (canvas7, None)))))"

text \<open>The loop of lines 73 to 124. A panic in one iteration ends the call.\<close>

function Plot_nodes ::
  "ChordDiagram \<Rightarrow> Point \<Rightarrow> real \<Rightarrow> nat \<Rightarrow> real \<Rightarrow> nat \<Rightarrow> Canvas \<Rightarrow> Canvas \<times> panic option" where
  "Plot_nodes c origin radius n angleStep i canvas =
     (if i < n
      then (case Plot_node c origin radius n angleStep i canvas of
              (canvas', Some e) \<Rightarrow> (canvas', Some e)
            | (canvas', None) \<Rightarrow> Plot_nodes c origin radius n angleStep (Suc i) canvas')
      else (canvas, None))"
  by pat_completeness auto
termination
  by (relation "measure (\<lambda>(c, origin, radius, n, angleStep, i, canvas). n - i)") auto

declare Plot_nodes.simps [simp del]

text \<open>The loops of lines 126 to 133: the largest entry of the matrix, and at least 0.\<close>

fun maxFlow_row :: "real list \<Rightarrow> real \<Rightarrow> real" where
  "maxFlow_row [] maxFlow = maxFlow"
| "maxFlow_row (x # row) maxFlow = maxFlow_row row (if maxFlow < x then x else maxFlow)"

fun maxFlow_rows :: "real list list \<Rightarrow> real \<Rightarrow> real" where
  "maxFlow_rows [] maxFlow = maxFlow"
| "maxFlow_rows (row # rows) maxFlow = maxFlow_rows rows (maxFlow_row row maxFlow)"

text \<open>
  The loops of lines 135 to 142. Both range over the slice itself, so the entry read is
  always there. Beside the canvas the model keeps a log of the divisions of line 138,
  numerator and divisor, one entry for each time the line is evaluated.
\<close>

fun Plot_chord_row ::
  "ChordDiagram \<Rightarrow> Point \<Rightarrow> real \<Rightarrow> nat \<Rightarrow> real \<Rightarrow> nat \<Rightarrow> nat \<Rightarrow> real list
     \<Rightarrow> Canvas \<times> (real \<times> real) list \<Rightarrow> Canvas \<times> (real \<times> real) list" where
  "Plot_chord_row c origin radius n maxFlow i j [] st = st"
| "Plot_chord_row c origin radius n maxFlow i j (x # row) st =
     Plot_chord_row c origin radius n maxFlow i (Suc j) row
       (if 0 < x
        then (drawChord (fst st) origin radius i j n (x / maxFlow) (Color c i j),
              snd st @ [(x, maxFlow)])
        else st)"

fun Plot_chord_rows ::
  "ChordDiagram \<Rightarrow> Point \<Rightarrow> real \<Rightarrow> nat \<Rightarrow> real \<Rightarrow> nat \<Rightarrow> real list list
     \<Rightarrow> Canvas \<times> (real \<times> real) list \<Rightarrow> Canvas \<times> (real \<times> real) list" where
  "Plot_chord_rows c origin radius n maxFlow i [] st = st"
| "Plot_chord_rows c origin radius n maxFlow i (row # rows) st =
     Plot_chord_rows c origin radius n maxFlow (Suc i) rows
       (Plot_chord_row c origin radius n maxFlow i 0 row st)"

text \<open>
  \<^verbatim>\<open>ChordDiagram.Plot\<close>. The \<^verbatim>\<open>plt\<close> argument is not used by the source and is
  left out. The result is the canvas after the call, the divisions of line 138 that were
  evaluated, and the panic that ended the call, if one did.

  For an empty matrix the source computes \<^verbatim>\<open>angleStep\<close> as \<open>2 pi / 0\<close>, which is
  infinite in Go and \<open>0\<close> in HOL; the value is never used then, since no loop body runs.
\<close>

record Outcome =
  canvas_after :: Canvas
  divisions :: "(real \<times> real) list"
  panicked :: "panic option"

definition Plot :: "ChordDiagram \<Rightarrow> Canvas \<Rightarrow> Outcome" where
  "Plot c canvas =
     (let origin = \<lparr>X = X (Size canvas) / 2, Y = Y (Size canvas) / 2\<rparr>;
          radius = min (X (Size canvas)) (Y (Size canvas)) * 0.35;
          n = length (Flow c);
          angleStep = 2 * pi / real n
      in case Plot_nodes c origin radius n angleStep 0 canvas of
           (canvas', Some e) \<Rightarrow> \<lparr>canvas_after = canvas', divisions = [], panicked = Some e\<rparr>
         | (canvas', None) \<Rightarrow>
            (let maxFlow = maxFlow_rows (Flow c) 0;
                 st = Plot_chord_rows c origin radius n maxFlow 0 (Flow c) (canvas', [])
             in \<lparr>canvas_after = fst st, divisions = snd st, panicked = None\<rparr>))"

text \<open>The colour function that \<^verbatim>\<open>main\<close> passes (line 361).\<close>

definition mainColor :: "nat \<Rightarrow> nat \<Rightarrow> RGBA" where
  "mainColor i j = \<lparr>R = of_nat (30 * i), G = of_nat (30 * j), B = 255, A = 200\<rparr>"

subsection \<open>Shapes of the input\<close>

text \<open>
  The shape checks that matter to the render call. \<open>node_ok c i\<close> says that iteration
  \<open>i\<close> of the node loop reads only entries that exist; \<open>renders_ok\<close> says so of
  every iteration.
\<close>

definition node_ok :: "ChordDiagram \<Rightarrow> nat \<Rightarrow> bool" where
  "node_ok c i =
     (case Labels c of
        None \<Rightarrow> True
      | Some labels \<Rightarrow> i < length labels \<and> length (Flow c) \<le> length (Flow c ! i))"

definition first_bad_node :: "ChordDiagram \<Rightarrow> nat \<Rightarrow> nat option" where
  "first_bad_node c i = find (\<lambda>k. \<not> node_ok c k) [i..<length (Flow c)]"

definition renders_ok :: "ChordDiagram \<Rightarrow> bool" where
  "renders_ok c =
     (case Labels c of
        None \<Rightarrow> True
      | Some labels \<Rightarrow>
          length (Flow c) \<le> length labels \<and>
          list_all (\<lambda>row. length (Flow c) \<le> length row) (Flow c))"

subsection \<open>The calls of a render, in closed form\<close>

text \<open>
  The following definitions describe, without loops, the calls that the render makes:
  for each node the arc and the labels, then for each positive entry of the matrix, in
  row-major order, one chord. The lemmas of the next section show that the loops of
  \<open>Plot\<close> produce exactly these calls.
\<close>

definition emit :: "Canvas \<Rightarrow> CanvasCall list \<Rightarrow> Canvas" where
  "emit canvas ops = canvas\<lparr>calls := calls canvas @ ops\<rparr>"

definition issued :: "Canvas \<Rightarrow> Outcome \<Rightarrow> CanvasCall list" where
  "issued canvas out = drop (length (calls canvas)) (calls (canvas_after out))"

definition centerAngle :: "nat \<Rightarrow> nat \<Rightarrow> real" where
  "centerAngle n i = real i * (2 * pi / real n)"

definition canvas_center :: "Canvas \<Rightarrow> Point" where
  "canvas_center canvas = \<lparr>X = X (Size canvas) / 2, Y = Y (Size canvas) / 2\<rparr>"

definition canvas_radius :: "Canvas \<Rightarrow> real" where
  "canvas_radius canvas = 0.35 * min (X (Size canvas)) (Y (Size canvas))"

definition boost_alpha :: "RGBA \<Rightarrow> RGBA" where
  "boost_alpha clr = clr\<lparr>A := of_nat (min 255 (unat (A clr) + 100))\<rparr>"

definition chord_path :: "Point \<Rightarrow> real \<Rightarrow> nat \<Rightarrow> nat \<Rightarrow> nat \<Rightarrow> Path" where
  "chord_path origin radius n i j =
     [MoveComp (pointOnCircle origin radius (centerAngle n i)),
      CurveComp (pointOnCircle origin (radius * 0.5) (centerAngle n i))
                (pointOnCircle origin (radius * 0.5) (centerAngle n j))
                (pointOnCircle origin radius (centerAngle n j))]"

definition chord_calls :: "Point \<Rightarrow> real \<Rightarrow> nat \<Rightarrow> nat \<Rightarrow> nat \<Rightarrow> real \<Rightarrow> RGBA \<Rightarrow> CanvasCall list" where
  "chord_calls origin radius n i j width clr =
     [SetLineWidth width, SetColor (boost_alpha clr), Stroke (chord_path origin radius n i j)]"

definition grey :: RGBA where
  "grey = \<lparr>R = 100, G = 100, B = 100, A = 255\<rparr>"

definition backplate :: RGBA where
  "backplate = \<lparr>R = 255, G = 255, B = 255, A = 220\<rparr>"

definition arc_start :: "nat \<Rightarrow> nat \<Rightarrow> real" where
  "arc_start n i = centerAngle n i - 2 * pi / real n / 3"

definition arc_end :: "nat \<Rightarrow> nat \<Rightarrow> real" where
  "arc_end n i = centerAngle n i + 2 * pi / real n / 3"

definition arc_path :: "Point \<Rightarrow> real \<Rightarrow> nat \<Rightarrow> nat \<Rightarrow> Path" where
  "arc_path origin radius n i =
     [MoveComp (pointOnCircle origin radius (arc_start n i)),
      ArcComp origin radius (arc_start n i) (arc_end n i - arc_start n i)]"

definition arc_calls :: "Point \<Rightarrow> real \<Rightarrow> nat \<Rightarrow> nat \<Rightarrow> CanvasCall list" where
  "arc_calls origin radius n i = [SetLineWidth 2, SetColor grey, Stroke (arc_path origin radius n i)]"

definition label_flip :: "real \<Rightarrow> real" where
  "label_flip a = (if pi / 2 < a \<and> a < 3 * pi / 2 then pi else 0)"

definition centered_style :: "RGBA \<Rightarrow> real \<Rightarrow> TextStyle" where
  "centered_style clr rot =
     \<lparr>TextColor = clr, FontSize = 12, Rotation = rot, XAlign = XCenter, YAlign = YCenter\<rparr>"

definition identity_label_calls :: "Point \<Rightarrow> real \<Rightarrow> nat \<Rightarrow> nat \<Rightarrow> string \<Rightarrow> CanvasCall list" where
  "identity_label_calls origin radius n i name =
     [FillText (centered_style backplate (centerAngle n i + label_flip (centerAngle n i)))
        (pointOnCircle origin (radius * 1.07) (centerAngle n i)) name,
      FillText (centered_style black (centerAngle n i + label_flip (centerAngle n i)))
        (pointOnCircle origin (radius * 1.07) (centerAngle n i)) name]"

definition volume_label_calls :: "Point \<Rightarrow> real \<Rightarrow> nat \<Rightarrow> nat \<Rightarrow> string \<Rightarrow> CanvasCall list" where
  "volume_label_calls origin radius n i txt =
     [FillText (centered_style backplate (centerAngle n i + pi / 2 + label_flip (centerAngle n i)))
        (pointOnCircle origin (radius * 1.15) (centerAngle n i)) txt,
      FillText (centered_style black (centerAngle n i + pi / 2 + label_flip (centerAngle n i)))
        (pointOnCircle origin (radius * 1.15) (centerAngle n i)) txt]"

definition volume_text :: "ChordDiagram \<Rightarrow> nat \<Rightarrow> string" where
  "volume_text c i = Sprintf_MB (sum_list (take (length (Flow c)) (Flow c ! i)) / 1024 / 1024)"

definition node_calls :: "ChordDiagram \<Rightarrow> Point \<Rightarrow> real \<Rightarrow> nat \<Rightarrow> CanvasCall list" where
  "node_calls c origin radius i =
     arc_calls origin radius (length (Flow c)) i @
     (case Labels c of
        None \<Rightarrow> []
      | Some labels \<Rightarrow>
          identity_label_calls origin radius (length (Flow c)) i (labels ! i) @
          volume_label_calls origin radius (length (Flow c)) i (volume_text c i))"

definition node_panic_calls :: "ChordDiagram \<Rightarrow> Point \<Rightarrow> real \<Rightarrow> nat \<Rightarrow> CanvasCall list" where
  "node_panic_calls c origin radius i =
     arc_calls origin radius (length (Flow c)) i @
     (case Labels c of
        None \<Rightarrow> []
      | Some labels \<Rightarrow>
          if i < length labels
          then identity_label_calls origin radius (length (Flow c)) i (labels ! i)
          else [])"

definition maxWeight :: "real list list \<Rightarrow> real" where
  "maxWeight flow = Max (set (0 # concat flow))"

definition row_entries :: "nat \<Rightarrow> nat \<Rightarrow> real list \<Rightarrow> (nat \<times> nat \<times> real) list" where
  "row_entries i j row = map (\<lambda>(j, x). (i, j, x)) (filter (\<lambda>(j, x). 0 < x) (enumerate j row))"

definition entries_from :: "nat \<Rightarrow> real list list \<Rightarrow> (nat \<times> nat \<times> real) list" where
  "entries_from i rows = concat (map (\<lambda>(i, row). row_entries i 0 row) (enumerate i rows))"

definition positive_entries :: "real list list \<Rightarrow> (nat \<times> nat \<times> real) list" where
  "positive_entries flow = entries_from 0 flow"

definition chord_of :: "ChordDiagram \<Rightarrow> Point \<Rightarrow> real \<Rightarrow> real \<Rightarrow> nat \<times> nat \<times> real \<Rightarrow> CanvasCall list" where
  "chord_of c origin radius m e =
     (case e of (i, j, x) \<Rightarrow>
        chord_calls origin radius (length (Flow c)) i j (x / m * 3) (Color c i j))"

definition chord_section :: "ChordDiagram \<Rightarrow> Point \<Rightarrow> real \<Rightarrow> CanvasCall list" where
  "chord_section c origin radius =
     concat (map (chord_of c origin radius (maxWeight (Flow c))) (positive_entries (Flow c)))"

definition node_section :: "ChordDiagram \<Rightarrow> Point \<Rightarrow> real \<Rightarrow> CanvasCall list" where
  "node_section c origin radius = concat (map (node_calls c origin radius) [0..<length (Flow c)])"

subsection \<open>Predicates used by the claims\<close>

text \<open>
  The input contract of the renderer: the matrix is square, and the labels, when there
  are any, cover every node.
\<close>

definition square :: "ChordDiagram \<Rightarrow> bool" where
  "square c = list_all (\<lambda>row. length row = length (Flow c)) (Flow c)"

definition labels_cover :: "ChordDiagram \<Rightarrow> bool" where
  "labels_cover c = (case Labels c of None \<Rightarrow> True | Some labels \<Rightarrow> length (Flow c) \<le> length labels)"

definition all_zero :: "ChordDiagram \<Rightarrow> bool" where
  "all_zero c = list_all (list_all (\<lambda>x. x = 0)) (Flow c)"

fun is_curve :: "PathComp \<Rightarrow> bool" where
  "is_curve (CurveComp p1 p2 p) = True"
| "is_curve (MoveComp p) = False"
| "is_curve (ArcComp p r s a) = False"

fun is_arc :: "PathComp \<Rightarrow> bool" where
  "is_arc (ArcComp p r s a) = True"
| "is_arc (MoveComp p) = False"
| "is_arc (CurveComp p1 p2 p) = False"

fun is_chord_stroke :: "CanvasCall \<Rightarrow> bool" where
  "is_chord_stroke (Stroke path) = list_ex is_curve path"
| "is_chord_stroke (SetLineWidth w) = False"
| "is_chord_stroke (SetColor clr) = False"
| "is_chord_stroke (FillText sty pt txt) = False"

fun is_arc_stroke :: "CanvasCall \<Rightarrow> bool" where
  "is_arc_stroke (Stroke path) = list_ex is_arc path"
| "is_arc_stroke (SetLineWidth w) = False"
| "is_arc_stroke (SetColor clr) = False"
| "is_arc_stroke (FillText sty pt txt) = False"

fun is_label_fill :: "CanvasCall \<Rightarrow> bool" where
  "is_label_fill (FillText sty pt txt) = True"
| "is_label_fill (Stroke path) = False"
| "is_label_fill (SetLineWidth w) = False"
| "is_label_fill (SetColor clr) = False"

definition is_arc_or_label :: "CanvasCall \<Rightarrow> bool" where
  "is_arc_or_label op = (is_arc_stroke op \<or> is_label_fill op)"


text \<open>
  The shapes that claim C1 calls invalid: the matrix is not square, the number of labels
  differs from the size of the matrix, there is no node, or there is one node only.
\<close>

definition input_shape_violation :: "ChordDiagram \<Rightarrow> bool" where
  "input_shape_violation c =
     (\<not> square c
      \<or> (case Labels c of None \<Rightarrow> False | Some labels \<Rightarrow> length labels \<noteq> length (Flow c))
      \<or> length (Flow c) = 0
      \<or> length (Flow c) = 1)"

subsection \<open>Example inputs\<close>

definition blank_canvas :: Canvas where
  "blank_canvas = \<lparr>Size = \<lparr>X = 400, Y = 300\<rparr>, calls = []\<rparr>"

definition used_canvas :: Canvas where
  "used_canvas = \<lparr>Size = \<lparr>X = 400, Y = 300\<rparr>, calls = [SetLineWidth 1]\<rparr>"

definition scenarioA :: ChordDiagram where
  "scenarioA = \<lparr>Flow = [[0, 100, 0], [0, 0, 50], [0, 0, 0]],
                Labels = Some [''A'', ''B'', ''C''], Color = mainColor\<rparr>"

definition scenarioB :: ChordDiagram where
  "scenarioB = \<lparr>Flow = [[0, 0], [0, 0]], Labels = Some [''A'', ''B''], Color = mainColor\<rparr>"


definition scenarioD :: ChordDiagram where
  "scenarioD = \<lparr>Flow = [[0]], Labels = Some [''A''], Color = mainColor\<rparr>"

definition unlabelled :: ChordDiagram where
  "unlabelled = \<lparr>Flow = [[0, 7], [0, 0]], Labels = None, Color = mainColor\<rparr>"

definition short_row :: ChordDiagram where
  "short_row = \<lparr>Flow = [[0, 0], [0]], Labels = Some [''A'', ''B''], Color = mainColor\<rparr>"

definition short_labels :: ChordDiagram where
  "short_labels = \<lparr>Flow = [[0, 0], [0, 0]], Labels = Some [''A''], Color = mainColor\<rparr>"

definition empty_diagram :: ChordDiagram where
  "empty_diagram = \<lparr>Flow = [], Labels = Some [], Color = mainColor\<rparr>"

section \<open>The loops compute the closed form\<close>

lemma emit_Nil [simp]: "emit canvas [] = canvas"
  by (simp add: emit_def)

lemma emit_emit [simp]: "emit (emit canvas xs) ys = emit canvas (xs @ ys)"
  by (simp add: emit_def)

lemma calls_emit [simp]: "calls (emit canvas xs) = calls canvas @ xs"
  by (simp add: emit_def)

lemma Size_emit [simp]: "Size (emit canvas xs) = Size canvas"
  by (simp add: emit_def)

lemma emit_inject [simp]: "emit canvas xs = emit canvas ys \<longleftrightarrow> xs = ys"
proof
  assume "emit canvas xs = emit canvas ys"
  then have "calls (emit canvas xs) = calls (emit canvas ys)" by simp
  then show "xs = ys" by simp
qed simp

lemma drawChord_emit:
  "drawChord canvas origin radius i j n weight clr =
     emit canvas (chord_calls origin radius n i j (weight * 3) clr)"
  by (simp add: drawChord_def Let_def emit_def chord_calls_def chord_path_def boost_alpha_def
      centerAngle_def pointOnCircle_def
      canvas_SetLineWidth_def canvas_SetColor_def canvas_Stroke_def)

lemma rowTotal_ok:
  "j \<le> n \<Longrightarrow> n \<le> length row \<Longrightarrow>
   rowTotal row n j t = Inr (t + sum_list (drop j (take n row)))"
proof (induction row n j t rule: rowTotal.induct)
  case (1 row n j t)
  show ?case
  proof (cases "j < n")
    case True
    with 1 have jl: "j < length row" by simp
    have "drop j (take n row) = row ! j # drop (Suc j) (take n row)"
      using True jl by (simp add: Cons_nth_drop_Suc [symmetric])
    with 1 True jl show ?thesis
      by (subst rowTotal.simps) simp
  next
    case False
    with 1 show ?thesis
      by (subst rowTotal.simps) simp
  qed
qed

lemma rowTotal_short:
  "j \<le> length row \<Longrightarrow> length row < n \<Longrightarrow> rowTotal row n j t = Inl IndexOutOfRange"
proof (induction row n j t rule: rowTotal.induct)
  case (1 row n j t)
  then show ?case
    by (subst rowTotal.simps) (cases "j < length row"; simp)
qed

lemma Plot_node_ok:
  assumes "node_ok c i" and "n = length (Flow c)" and "angleStep = 2 * pi / real n"
  shows "Plot_node c origin radius n angleStep i canvas = (emit canvas (node_calls c origin radius i), None)"
proof (cases "Labels c")
  case None
  then show ?thesis
    using assms
    by (simp add: Plot_node_def Let_def node_calls_def arc_calls_def arc_path_def arc_start_def
        arc_end_def centerAngle_def grey_def emit_def
        canvas_SetLineWidth_def canvas_SetColor_def canvas_Stroke_def)
next
  case (Some labels)
  with assms have il: "i < length labels" and rl: "length (Flow c) \<le> length (Flow c ! i)"
    by (simp_all add: node_ok_def)
  have rt: "rowTotal (Flow c ! i) (length (Flow c)) 0 0
              = Inr (sum_list (take (length (Flow c)) (Flow c ! i)))"
    using rowTotal_ok [of 0 "length (Flow c)" "Flow c ! i" 0] rl by simp
  show ?thesis
    using Some il rt assms(2,3)
    by (simp add: Plot_node_def Let_def node_calls_def arc_calls_def arc_path_def arc_start_def
        arc_end_def centerAngle_def grey_def emit_def identity_label_calls_def
        volume_label_calls_def volume_text_def centered_style_def labelStyle_def backplate_def
        label_flip_def
        canvas_SetLineWidth_def canvas_SetColor_def canvas_Stroke_def canvas_FillText_def)
qed

lemma Plot_node_panic:
  assumes "\<not> node_ok c i" and "n = length (Flow c)" and "angleStep = 2 * pi / real n"
    and "i < n"
  shows "Plot_node c origin radius n angleStep i canvas =
           (emit canvas (node_panic_calls c origin radius i), Some IndexOutOfRange)"
proof -
  from assms(1) obtain labels where L: "Labels c = Some labels"
    and bad: "\<not> i < length labels \<or> length (Flow c ! i) < length (Flow c)"
    by (auto simp: node_ok_def split: option.splits)
  show ?thesis
  proof (cases "i < length labels")
    case False
    then show ?thesis
      using L assms(2,3)
      by (simp add: Plot_node_def Let_def node_panic_calls_def arc_calls_def arc_path_def
          arc_start_def arc_end_def centerAngle_def grey_def emit_def
          canvas_SetLineWidth_def canvas_SetColor_def canvas_Stroke_def)
  next
    case True
    with bad have "length (Flow c ! i) < length (Flow c)" by simp
    then have rt: "rowTotal (Flow c ! i) (length (Flow c)) 0 0 = Inl IndexOutOfRange"
      by (simp add: rowTotal_short)
    show ?thesis
      using L True rt assms(2,3)
      by (simp add: Plot_node_def Let_def node_panic_calls_def arc_calls_def arc_path_def
          arc_start_def arc_end_def centerAngle_def grey_def emit_def identity_label_calls_def
          centered_style_def labelStyle_def backplate_def label_flip_def
          canvas_SetLineWidth_def canvas_SetColor_def canvas_Stroke_def canvas_FillText_def)
  qed
qed

lemma Plot_nodes_closed:
  assumes "n = length (Flow c)" and "angleStep = 2 * pi / real n"
  shows "Plot_nodes c origin radius n angleStep i canvas =
     (case first_bad_node c i of
        None \<Rightarrow> (emit canvas (concat (map (node_calls c origin radius) [i..<n])), None)
      | Some k \<Rightarrow> (emit canvas (concat (map (node_calls c origin radius) [i..<k])
                                   @ node_panic_calls c origin radius k),
                   Some IndexOutOfRange))"
  using assms
proof (induction c origin radius n angleStep i canvas rule: Plot_nodes.induct)
  case (1 c origin radius n angleStep i canvas)
  show ?case
  proof (cases "i < n")
    case False
    with 1(2) show ?thesis
      by (subst Plot_nodes.simps) (simp add: first_bad_node_def)
  next
    case True
    then have upt: "[i..<length (Flow c)] = i # [Suc i..<length (Flow c)]"
      using 1(2) by (simp add: upt_conv_Cons)
    show ?thesis
    proof (cases "node_ok c i")
      case False
      then have "first_bad_node c i = Some i"
        by (simp add: first_bad_node_def upt)
      then show ?thesis
        using True Plot_node_panic [OF False 1(2) 1(3) True]
        by (subst Plot_nodes.simps) simp
    next
      case ok: True
      have fb: "first_bad_node c i = first_bad_node c (Suc i)"
        using ok by (simp add: first_bad_node_def upt)
      have step: "Plot_node c origin radius n angleStep i canvas
                    = (emit canvas (node_calls c origin radius i), None)"
        by (rule Plot_node_ok [OF ok 1(2) 1(3)])
      have IH: "Plot_nodes c origin radius n angleStep (Suc i) (emit canvas (node_calls c origin radius i)) =
         (case first_bad_node c (Suc i) of
            None \<Rightarrow> (emit (emit canvas (node_calls c origin radius i))
                        (concat (map (node_calls c origin radius) [Suc i..<n])), None)
          | Some k \<Rightarrow> (emit (emit canvas (node_calls c origin radius i))
                         (concat (map (node_calls c origin radius) [Suc i..<k])
                                   @ node_panic_calls c origin radius k),
                   Some IndexOutOfRange))"
        using 1(1) [OF True step [symmetric] refl 1(2) 1(3)] .
      show ?thesis
      proof (cases "first_bad_node c (Suc i)")
        case None
        then show ?thesis
          using True step IH fb 1(2)
          by (subst Plot_nodes.simps) (simp add: upt_conv_Cons)
      next
        case (Some k)
        then have "Suc i \<le> k"
          by (auto simp: first_bad_node_def find_Some_iff)
        then have "[i..<k] = i # [Suc i..<k]"
          by (simp add: upt_conv_Cons)
        then show ?thesis
          using True step IH fb Some
          by (subst Plot_nodes.simps) simp
      qed
    qed
  qed
qed

lemma Plot_chord_row_closed:
  "Plot_chord_row c origin radius (length (Flow c)) m i j row st =
     (emit (fst st) (concat (map (chord_of c origin radius m) (row_entries i j row))),
      snd st @ map (\<lambda>(i, j, x). (x, m)) (row_entries i j row))"
proof (induction row arbitrary: j st)
  case Nil
  show ?case by (simp add: row_entries_def)
next
  case (Cons x row)
  show ?case
    by (simp add: Cons.IH row_entries_def chord_of_def drawChord_emit)
qed

lemma Plot_chord_rows_closed:
  "Plot_chord_rows c origin radius (length (Flow c)) m i rows st =
     (emit (fst st) (concat (map (chord_of c origin radius m) (entries_from i rows))),
      snd st @ map (\<lambda>(i, j, x). (x, m)) (entries_from i rows))"
proof (induction rows arbitrary: i st)
  case Nil
  show ?case by (simp add: entries_from_def)
next
  case (Cons row rows)
  show ?case
    by (simp add: Cons.IH Plot_chord_row_closed entries_from_def)
qed

lemma maxFlow_row_fold: "maxFlow_row row m = fold max row m"
  by (induction row arbitrary: m) (simp_all add: max_def not_less)

lemma maxFlow_rows_fold: "maxFlow_rows rows m = fold max (concat rows) m"
  by (induction rows arbitrary: m) (simp_all add: maxFlow_row_fold)

lemma maxFlow_rows_maxWeight: "maxFlow_rows flow 0 = maxWeight flow"
  unfolding maxFlow_rows_fold maxWeight_def by (rule Max.set_eq_fold [symmetric])

lemma all_below_less: "(\<forall>i < n. i < (m::nat)) \<longleftrightarrow> n \<le> m"
proof
  assume h: "\<forall>i < n. i < m"
  show "n \<le> m"
  proof (cases n)
    case 0
    then show ?thesis by simp
  next
    case (Suc k)
    with h have "k < m" by simp
    with Suc show ?thesis by simp
  qed
qed auto

lemma renders_ok_iff: "renders_ok c \<longleftrightarrow> (\<forall>i < length (Flow c). node_ok c i)"
proof (cases "Labels c")
  case None
  then show ?thesis by (simp add: renders_ok_def node_ok_def)
next
  case (Some labels)
  have "(\<forall>i < length (Flow c). i < length labels \<and> length (Flow c) \<le> length (Flow c ! i))
        \<longleftrightarrow> (\<forall>i < length (Flow c). i < length labels)
            \<and> (\<forall>i < length (Flow c). length (Flow c) \<le> length (Flow c ! i))"
    by auto
  then show ?thesis
    using Some by (simp add: renders_ok_def node_ok_def list_all_length all_below_less)
qed

lemma first_bad_node_None: "first_bad_node c 0 = None \<longleftrightarrow> renders_ok c"
  by (auto simp: first_bad_node_def find_None_iff renders_ok_iff)

lemma first_bad_node_Some:
  "first_bad_node c 0 = Some k \<Longrightarrow> k < length (Flow c) \<and> \<not> node_ok c k \<and> (\<forall>i < k. node_ok c i)"
  by (auto simp: first_bad_node_def find_Some_iff)

lemma Plot_closed:
  "Plot c canvas =
     (case first_bad_node c 0 of
        None \<Rightarrow>
          \<lparr>canvas_after = emit canvas (node_section c (canvas_center canvas) (canvas_radius canvas)
                                         @ chord_section c (canvas_center canvas) (canvas_radius canvas)),
           divisions = map (\<lambda>(i, j, x). (x, maxWeight (Flow c))) (positive_entries (Flow c)),
           panicked = None\<rparr>
      | Some k \<Rightarrow>
          \<lparr>canvas_after = emit canvas
              (concat (map (node_calls c (canvas_center canvas) (canvas_radius canvas)) [0..<k])
               @ node_panic_calls c (canvas_center canvas) (canvas_radius canvas) k),
           divisions = [],
           panicked = Some IndexOutOfRange\<rparr>)"
proof -
  have r: "min (X (Size canvas)) (Y (Size canvas)) * 0.35 = canvas_radius canvas"
    by (simp add: canvas_radius_def)
  have o: "\<lparr>X = X (Size canvas) / 2, Y = Y (Size canvas) / 2\<rparr> = canvas_center canvas"
    by (simp add: canvas_center_def)
  show ?thesis
    unfolding Plot_def Let_def r o
    by (simp add: Plot_nodes_closed [OF refl refl] Plot_chord_rows_closed maxFlow_rows_maxWeight
        node_section_def chord_section_def positive_entries_def split: option.splits)
qed

lemma issued_emit [simp]: "issued canvas \<lparr>canvas_after = emit canvas ops, divisions = d, panicked = p\<rparr> = ops"
  by (simp add: issued_def)

lemma contract_renders_ok: "square c \<Longrightarrow> labels_cover c \<Longrightarrow> renders_ok c"
  by (cases "Labels c") (auto simp: square_def labels_cover_def renders_ok_def list_all_iff)

lemma Plot_ok:
  assumes "renders_ok c"
  shows "Plot c canvas =
          \<lparr>canvas_after = emit canvas (node_section c (canvas_center canvas) (canvas_radius canvas)
                                         @ chord_section c (canvas_center canvas) (canvas_radius canvas)),
           divisions = map (\<lambda>(i, j, x). (x, maxWeight (Flow c))) (positive_entries (Flow c)),
           panicked = None\<rparr>"
proof -
  from assms have "first_bad_node c 0 = None" by (simp add: first_bad_node_None)
  then show ?thesis by (simp add: Plot_closed)
qed

lemma Plot_panics:
  assumes "\<not> renders_ok c"
  shows "\<exists>k < length (Flow c). Plot c canvas =
          \<lparr>canvas_after = emit canvas
              (concat (map (node_calls c (canvas_center canvas) (canvas_radius canvas)) [0..<k])
               @ node_panic_calls c (canvas_center canvas) (canvas_radius canvas) k),
           divisions = [],
           panicked = Some IndexOutOfRange\<rparr>"
proof -
  from assms obtain k where k: "first_bad_node c 0 = Some k"
    using first_bad_node_None [of c] by (cases "first_bad_node c 0") auto
  then have "k < length (Flow c)" by (simp add: first_bad_node_Some)
  with k show ?thesis by (auto simp: Plot_closed)
qed

lemma panicked_Plot:
  "panicked (Plot c canvas) = (if renders_ok c then None else Some IndexOutOfRange)"
proof (cases "renders_ok c")
  case True
  then show ?thesis by (simp add: Plot_ok)
next
  case False
  from Plot_panics [OF this, of canvas] show ?thesis using False by auto
qed

subsection \<open>The positive entries, the largest entry, and the kinds of call\<close>

lemma row_entries_Cons:
  "row_entries i j (x # row) = (if 0 < x then [(i, j, x)] else []) @ row_entries i (Suc j) row"
  by (simp add: row_entries_def)

lemma entries_from_Cons:
  "entries_from i (row # rows) = row_entries i 0 row @ entries_from (Suc i) rows"
  by (simp add: entries_from_def)

lemma in_row_entries:
  "e \<in> set (row_entries i j row) \<longleftrightarrow>
     (\<exists>k < length row. e = (i, j + k, row ! k) \<and> 0 < row ! k)"
proof (induction row arbitrary: j)
  case Nil
  show ?case by (simp add: row_entries_def)
next
  case (Cons x row)
  have "(\<exists>k < length (x # row). e = (i, j + k, (x # row) ! k) \<and> 0 < (x # row) ! k)
        \<longleftrightarrow> (e = (i, j, x) \<and> 0 < x) \<or> (\<exists>k < length row. e = (i, Suc j + k, row ! k) \<and> 0 < row ! k)"
    by (auto simp: less_Suc_eq_0_disj)
  then show ?case
    by (auto simp: row_entries_Cons Cons.IH)
qed

lemma in_entries_from:
  "e \<in> set (entries_from i rows) \<longleftrightarrow>
     (\<exists>k < length rows. \<exists>l < length (rows ! k). e = (i + k, l, rows ! k ! l) \<and> 0 < rows ! k ! l)"
proof (induction rows arbitrary: i)
  case Nil
  show ?case by (simp add: entries_from_def)
next
  case (Cons row rows)
  have "(\<exists>k < length (row # rows). \<exists>l < length ((row # rows) ! k).
            e = (i + k, l, (row # rows) ! k ! l) \<and> 0 < (row # rows) ! k ! l)
        \<longleftrightarrow> (\<exists>l < length row. e = (i, l, row ! l) \<and> 0 < row ! l)
            \<or> (\<exists>k < length rows. \<exists>l < length (rows ! k). e = (Suc i + k, l, rows ! k ! l) \<and> 0 < rows ! k ! l)"
    by (auto simp: less_Suc_eq_0_disj)
  then show ?case
    by (simp add: entries_from_Cons Cons.IH in_row_entries)
qed

lemma in_positive_entries:
  "(i, j, x) \<in> set (positive_entries flow) \<longleftrightarrow>
     i < length flow \<and> j < length (flow ! i) \<and> x = flow ! i ! j \<and> 0 < flow ! i ! j"
  by (auto simp: positive_entries_def in_entries_from)




lemma all_zero_no_entries: "all_zero c \<Longrightarrow> positive_entries (Flow c) = []"
proof -
  assume z: "all_zero c"
  have "e \<notin> set (positive_entries (Flow c))" for e
  proof
    assume "e \<in> set (positive_entries (Flow c))"
    moreover obtain i j x where "e = (i, j, x)"
      by (cases e) auto
    ultimately have "(i, j, x) \<in> set (positive_entries (Flow c))"
      by simp
    then have "i < length (Flow c)" "j < length (Flow c ! i)" "0 < Flow c ! i ! j"
      by (simp_all add: in_positive_entries)
    with z show False
      by (auto simp: all_zero_def list_all_length)
  qed
  then show ?thesis
    by (cases "positive_entries (Flow c)") auto
qed


lemma maxWeight_nonneg: "0 \<le> maxWeight flow"
  unfolding maxWeight_def by (intro Max_ge) auto


lemma filter_arc_calls:
  "filter is_arc_stroke (arc_calls origin radius n i) = [Stroke (arc_path origin radius n i)]"
  "filter is_label_fill (arc_calls origin radius n i) = []"
  "filter is_chord_stroke (arc_calls origin radius n i) = []"
  by (simp_all add: arc_calls_def arc_path_def)

lemma filter_identity_label_calls:
  "filter is_arc_stroke (identity_label_calls origin radius n i name) = []"
  "filter is_label_fill (identity_label_calls origin radius n i name) = identity_label_calls origin radius n i name"
  "filter is_chord_stroke (identity_label_calls origin radius n i name) = []"
  by (simp_all add: identity_label_calls_def)

lemma filter_volume_label_calls:
  "filter is_arc_stroke (volume_label_calls origin radius n i txt) = []"
  "filter is_label_fill (volume_label_calls origin radius n i txt) = volume_label_calls origin radius n i txt"
  "filter is_chord_stroke (volume_label_calls origin radius n i txt) = []"
  by (simp_all add: volume_label_calls_def)

lemma filter_chord_calls:
  "filter is_arc_stroke (chord_calls origin radius n i j w clr) = []"
  "filter is_label_fill (chord_calls origin radius n i j w clr) = []"
  "filter is_chord_stroke (chord_calls origin radius n i j w clr) = [Stroke (chord_path origin radius n i j)]"
  by (simp_all add: chord_calls_def chord_path_def)

lemmas filter_calls = filter_arc_calls filter_identity_label_calls filter_volume_label_calls
  filter_chord_calls

lemma filter_node_calls:
  "filter is_arc_stroke (node_calls c origin radius i) = [Stroke (arc_path origin radius (length (Flow c)) i)]"
  "filter is_chord_stroke (node_calls c origin radius i) = []"
  "filter is_label_fill (node_calls c origin radius i) =
     (case Labels c of
        None \<Rightarrow> []
      | Some labels \<Rightarrow>
          identity_label_calls origin radius (length (Flow c)) i (labels ! i) @
          volume_label_calls origin radius (length (Flow c)) i (volume_text c i))"
  by (simp_all add: node_calls_def filter_calls split: option.splits)

lemma filter_node_panic_calls:
  "filter is_chord_stroke (node_panic_calls c origin radius i) = []"
  by (simp add: node_panic_calls_def filter_calls split: option.splits)

lemma filter_concat_map: "filter P (concat (map f xs)) = concat (map (\<lambda>x. filter P (f x)) xs)"
  by (induction xs) simp_all

lemma concat_map_Nil: "concat (map (\<lambda>x. []) xs) = []"
  by (induction xs) simp_all

lemma filter_node_section:
  "filter is_arc_stroke (node_section c origin radius)
     = map (\<lambda>i. Stroke (arc_path origin radius (length (Flow c)) i)) [0..<length (Flow c)]"
  "filter is_chord_stroke (node_section c origin radius) = []"
  "filter is_label_fill (node_section c origin radius) =
     concat (map (\<lambda>i. case Labels c of
        None \<Rightarrow> []
      | Some labels \<Rightarrow>
          identity_label_calls origin radius (length (Flow c)) i (labels ! i) @
          volume_label_calls origin radius (length (Flow c)) i (volume_text c i)) [0..<length (Flow c)])"
  by (simp_all add: node_section_def filter_concat_map filter_node_calls concat_map_Nil)

lemma filter_chord_of:
  "filter is_arc_stroke (chord_of c origin radius m e) = []"
  "filter is_label_fill (chord_of c origin radius m e) = []"
  "filter is_chord_stroke (chord_of c origin radius m e)
     = [Stroke (chord_path origin radius (length (Flow c)) (fst e) (fst (snd e)))]"
  by (simp_all add: chord_of_def filter_calls split: prod.splits)

lemma filter_chord_section:
  "filter is_arc_stroke (chord_section c origin radius) = []"
  "filter is_label_fill (chord_section c origin radius) = []"
  "filter is_chord_stroke (chord_section c origin radius)
     = map (\<lambda>e. Stroke (chord_path origin radius (length (Flow c)) (fst e) (fst (snd e))))
         (positive_entries (Flow c))"
  by (simp_all add: chord_section_def filter_concat_map filter_chord_of concat_map_Nil)

lemma issued_Plot_ok:
  "renders_ok c \<Longrightarrow>
   issued canvas (Plot c canvas) =
     node_section c (canvas_center canvas) (canvas_radius canvas)
     @ chord_section c (canvas_center canvas) (canvas_radius canvas)"
  by (simp add: Plot_ok)

lemma divisions_Plot_ok:
  "renders_ok c \<Longrightarrow>
   divisions (Plot c canvas) = map (\<lambda>(i, j, x). (x, maxWeight (Flow c))) (positive_entries (Flow c))"
  by (simp add: Plot_ok)

lemma node_section_unlabelled:
  assumes "Labels c = None"
  shows "node_section c origin radius
           = concat (map (arc_calls origin radius (length (Flow c))) [0..<length (Flow c)])"
proof -
  have "node_calls c origin radius = arc_calls origin radius (length (Flow c))"
    using assms by (intro ext) (simp add: node_calls_def)
  then show ?thesis
    by (simp add: node_section_def)
qed

lemma positive_entries_unlabelled: "positive_entries (Flow unlabelled) = [(0, 1, 7)]"
  by (simp add: unlabelled_def positive_entries_def entries_from_def row_entries_def)

lemma length_concat_blocks:
  "(\<And>x. x \<in> set xs \<Longrightarrow> length (f x) = m) \<Longrightarrow> length (concat (map f xs)) = m * length xs"
  by (induction xs) simp_all

lemma length_identity_label_calls [simp]: "length (identity_label_calls origin radius n i name) = 2"
  by (simp add: identity_label_calls_def)

lemma length_volume_label_calls [simp]: "length (volume_label_calls origin radius n i txt) = 2"
  by (simp add: volume_label_calls_def)

lemma length_arc_calls [simp]: "length (arc_calls origin radius n i) = 3"
  by (simp add: arc_calls_def)

lemma length_label_fills:
  "length (filter is_label_fill (node_section c origin radius))
     = (case Labels c of None \<Rightarrow> 0 | Some labels \<Rightarrow> 4 * length (Flow c))"
proof (cases "Labels c")
  case None
  then show ?thesis
    by (simp add: filter_node_section concat_map_Nil)
next
  case (Some labels)
  then show ?thesis
    using length_concat_blocks [of "[0..<length (Flow c)]"
        "\<lambda>i. identity_label_calls origin radius (length (Flow c)) i (labels ! i) @
             volume_label_calls origin radius (length (Flow c)) i (volume_text c i)" 4]
    by (simp add: filter_node_section)
qed

lemma append_order:
  assumes "filter P xs = []" and "filter Q ys = []"
    and "k < length (xs @ ys)" and "l < length (xs @ ys)"
    and "P ((xs @ ys) ! k)" and "Q ((xs @ ys) ! l)"
  shows "l < k"
proof -
  have noP: "\<not> P x" if "x \<in> set xs" for x
    using assms(1) that by (simp add: filter_empty_conv)
  have noQ: "\<not> Q y" if "y \<in> set ys" for y
    using assms(2) that by (simp add: filter_empty_conv)
  have k: "length xs \<le> k"
  proof (rule ccontr)
    assume "\<not> length xs \<le> k"
    then have "k < length xs" by simp
    then have "(xs @ ys) ! k \<in> set xs" by (simp add: nth_append)
    with noP assms(5) show False by blast
  qed
  have l: "l < length xs"
  proof (rule ccontr)
    assume "\<not> l < length xs"
    then have "(xs @ ys) ! l = ys ! (l - length xs)" and "l - length xs < length ys"
      using assms(4) by (simp_all add: nth_append)
    then have "(xs @ ys) ! l \<in> set ys" by simp
    with noQ assms(6) show False by blast
  qed
  from k l show ?thesis by simp
qed

lemma filter_arc_or_label_chords:
  "filter is_arc_or_label (chord_section c origin radius) = []"
  using filter_chord_section(1,2) [of c origin radius]
  by (auto simp: filter_empty_conv is_arc_or_label_def)

lemma issued_Plot_split:
  "\<exists>xs ys. issued canvas (Plot c canvas) = xs @ ys
      \<and> filter is_chord_stroke xs = [] \<and> filter is_arc_or_label ys = []"
proof (cases "first_bad_node c 0")
  case None
  then have "issued canvas (Plot c canvas) =
     node_section c (canvas_center canvas) (canvas_radius canvas)
     @ chord_section c (canvas_center canvas) (canvas_radius canvas)"
    by (simp add: Plot_closed)
  then show ?thesis
    using filter_node_section(2) filter_arc_or_label_chords by blast
next
  case (Some k)
  let ?xs = "concat (map (node_calls c (canvas_center canvas) (canvas_radius canvas)) [0..<k])
               @ node_panic_calls c (canvas_center canvas) (canvas_radius canvas) k"
  from Some have "issued canvas (Plot c canvas) = ?xs @ []"
    by (simp add: Plot_closed)
  moreover have "filter is_chord_stroke ?xs = []"
    by (simp add: filter_concat_map filter_node_calls filter_node_panic_calls concat_map_Nil)
  moreover have "filter is_arc_or_label [] = []"
    by simp
  ultimately show ?thesis by blast
qed

lemma canvas_after_Plot:
  "canvas_after (Plot c canvas) = emit canvas (issued canvas (Plot c canvas))"
  by (cases "first_bad_node c 0") (simp_all add: Plot_closed)

lemma issued_Plot_Size:
  assumes "Size canvas1 = Size canvas2"
  shows "issued canvas1 (Plot c canvas1) = issued canvas2 (Plot c canvas2)"
proof -
  have o: "canvas_center canvas1 = canvas_center canvas2"
    using assms by (simp add: canvas_center_def)
  have r: "canvas_radius canvas1 = canvas_radius canvas2"
    using assms by (simp add: canvas_radius_def)
  show ?thesis
    by (cases "first_bad_node c 0") (simp_all add: Plot_closed o r)
qed

lemma angleStep_pos: "0 < n \<Longrightarrow> 0 < 2 * pi / real n"
  by simp

lemma centerAngle_strict_mono: "0 < n \<Longrightarrow> i < j \<Longrightarrow> centerAngle n i < centerAngle n j"
proof -
  assume n: "0 < n" and ij: "i < j"
  have "real i < real j" using ij by simp
  then show ?thesis
    unfolding centerAngle_def using angleStep_pos [OF n] by (rule mult_strict_right_mono)
qed

lemma arcs_disjoint: "0 < n \<Longrightarrow> arc_end n i < arc_start n (Suc i)"
proof -
  assume n: "0 < n"
  define s where "s = 2 * pi / real n"
  have s: "0 < s" using n by (simp add: s_def)
  have "real (Suc i) * s = real i * s + s"
    by (simp add: algebra_simps)
  then have "real i * s + s / 3 < real (Suc i) * s - s / 3"
    using s by simp
  then show ?thesis
    unfolding arc_end_def arc_start_def centerAngle_def s_def .
qed

lemma arcs_wrap_disjoint: "0 < n \<Longrightarrow> arc_end n (n - 1) < arc_start n 0 + 2 * pi"
proof -
  assume n: "0 < n"
  define s where "s = 2 * pi / real n"
  have s: "0 < s" using n by (simp add: s_def)
  have full: "real n * s = 2 * pi"
    using n by (simp add: s_def)
  have "real (n - 1) = real n - 1"
    using n by (simp add: of_nat_diff)
  then have "real (n - 1) * s = 2 * pi - s"
    using full by (simp add: algebra_simps)
  then have "real (n - 1) * s + s / 3 < real 0 * s - s / 3 + 2 * pi"
    using s by simp
  then show ?thesis
    unfolding arc_end_def arc_start_def centerAngle_def s_def .
qed

lemma arc_strokes_Plot_ok:
  "renders_ok c \<Longrightarrow>
   filter is_arc_stroke (issued canvas (Plot c canvas)) =
     map (\<lambda>i. Stroke (arc_path (canvas_center canvas) (canvas_radius canvas) (length (Flow c)) i))
         [0..<length (Flow c)]"
  by (simp add: issued_Plot_ok filter_node_section filter_chord_section)














lemma take_arc_node_calls:
  "take 3 (node_calls c origin radius i @ rest) = arc_calls origin radius (length (Flow c)) i"
  by (simp add: node_calls_def arc_calls_def)

lemma take_arc_node_panic_calls:
  "take 3 (node_panic_calls c origin radius i @ rest) = arc_calls origin radius (length (Flow c)) i"
  by (simp add: node_panic_calls_def arc_calls_def)

lemma first_calls_Plot:
  assumes "0 < length (Flow c)"
  shows "take 3 (issued canvas (Plot c canvas))
           = arc_calls (canvas_center canvas) (canvas_radius canvas) (length (Flow c)) 0"
proof (cases "first_bad_node c 0")
  case None
  have u: "[0..<length (Flow c)] = 0 # [Suc 0..<length (Flow c)]"
    using assms by (simp add: upt_conv_Cons)
  have "issued canvas (Plot c canvas) =
     node_calls c (canvas_center canvas) (canvas_radius canvas) 0
     @ (concat (map (node_calls c (canvas_center canvas) (canvas_radius canvas)) [Suc 0..<length (Flow c)])
        @ chord_section c (canvas_center canvas) (canvas_radius canvas))"
    using None by (simp add: Plot_closed node_section_def u)
  then show ?thesis
    by (simp only: take_arc_node_calls)
next
  case (Some k)
  show ?thesis
  proof (cases k)
    case 0
    have "issued canvas (Plot c canvas) =
      node_panic_calls c (canvas_center canvas) (canvas_radius canvas) 0 @ []"
      using Some 0 by (simp add: Plot_closed)
    then show ?thesis
      by (simp only: take_arc_node_panic_calls)
  next
    case (Suc k')
    have u: "[0..<k] = 0 # [Suc 0..<k]"
      using Suc by (simp add: upt_conv_Cons)
    have "issued canvas (Plot c canvas) =
      node_calls c (canvas_center canvas) (canvas_radius canvas) 0
      @ (concat (map (node_calls c (canvas_center canvas) (canvas_radius canvas)) [Suc 0..<k])
         @ node_panic_calls c (canvas_center canvas) (canvas_radius canvas) k)"
      using Some by (simp add: Plot_closed u)
    then show ?thesis
      by (simp only: take_arc_node_calls)
  qed
qed

lemma no_calls_Plot:
  assumes "length (Flow c) = 0"
  shows "issued canvas (Plot c canvas) = []"
proof -
  have ok: "renders_ok c"
    using assms by (simp add: renders_ok_def split: option.splits)
  have "positive_entries (Flow c) = []"
    using assms by (simp add: positive_entries_def entries_from_def)
  then show ?thesis
    using assms by (simp add: issued_Plot_ok [OF ok] node_section_def chord_section_def)
qed

section \<open>Inputs of invalid shape\<close>

text \<open>
  Claim C1, as amended. The render call does not check the shape of its input. It ends
  normally exactly when \<open>Labels\<close> is nil, or \<open>Labels\<close> and every row of the matrix
  have at least \<open>N\<close> entries; otherwise it ends with an index-out-of-range panic. For
  \<open>N = 0\<close> it makes no call on the canvas. For every \<open>N > 0\<close>, so also for \<open>N = 1\<close>
  and also when the call panics later, the first calls stroke the arc of node 0.
\<close>

theorem no_shape_validation:
  "(panicked (Plot c canvas) = None \<longleftrightarrow> renders_ok c)
   \<and> (panicked (Plot c canvas) \<noteq> None \<longrightarrow> panicked (Plot c canvas) = Some IndexOutOfRange)
   \<and> (length (Flow c) = 0 \<longrightarrow> issued canvas (Plot c canvas) = [])
   \<and> (0 < length (Flow c) \<longrightarrow>
        take 3 (issued canvas (Plot c canvas)) =
          [SetLineWidth 2, SetColor grey,
           Stroke (arc_path (canvas_center canvas) (canvas_radius canvas) (length (Flow c)) 0)])"
proof -
  have 1: "panicked (Plot c canvas) = None \<longleftrightarrow> renders_ok c"
    by (simp add: panicked_Plot)
  have 2: "panicked (Plot c canvas) \<noteq> None \<longrightarrow> panicked (Plot c canvas) = Some IndexOutOfRange"
    by (simp add: panicked_Plot)
  have 3: "length (Flow c) = 0 \<longrightarrow> issued canvas (Plot c canvas) = []"
    using no_calls_Plot by blast
  have 4: "0 < length (Flow c) \<longrightarrow>
        take 3 (issued canvas (Plot c canvas)) =
          [SetLineWidth 2, SetColor grey,
           Stroke (arc_path (canvas_center canvas) (canvas_radius canvas) (length (Flow c)) 0)]"
    using first_calls_Plot [of c canvas] by (simp only: arc_calls_def) blast
  from 1 2 3 4 show ?thesis by blast
qed

theorem no_shape_validation_witness:
  "\<not> renders_ok short_row
   \<and> panicked (Plot short_row blank_canvas) = Some IndexOutOfRange
   \<and> 0 < length (Flow short_row)
   \<and> take 3 (issued blank_canvas (Plot short_row blank_canvas)) =
        [SetLineWidth 2, SetColor grey,
         Stroke (arc_path (canvas_center blank_canvas) (canvas_radius blank_canvas) 2 0)]
   \<and> length (Flow empty_diagram) = 0
   \<and> panicked (Plot empty_diagram blank_canvas) = None
   \<and> issued blank_canvas (Plot empty_diagram blank_canvas) = []"
proof -
  have bad: "\<not> renders_ok short_row"
    by (simp add: renders_ok_def short_row_def)
  have len: "length (Flow short_row) = 2"
    by (simp add: short_row_def)
  have pos: "0 < length (Flow short_row)"
    by (simp add: short_row_def)
  have good: "renders_ok empty_diagram"
    by (simp add: renders_ok_def empty_diagram_def)
  have zero: "length (Flow empty_diagram) = 0"
    by (simp add: empty_diagram_def)
  note T = no_shape_validation [of short_row blank_canvas]
  note U = no_shape_validation [of empty_diagram blank_canvas]
  from T bad have t1: "panicked (Plot short_row blank_canvas) \<noteq> None"
    by blast
  with T have t2: "panicked (Plot short_row blank_canvas) = Some IndexOutOfRange"
    by blast
  from T pos have t4: "take 3 (issued blank_canvas (Plot short_row blank_canvas)) =
        [SetLineWidth 2, SetColor grey,
         Stroke (arc_path (canvas_center blank_canvas) (canvas_radius blank_canvas) 2 0)]"
    unfolding len by blast
  from U good have u1: "panicked (Plot empty_diagram blank_canvas) = None"
    by blast
  from U zero have u3: "issued blank_canvas (Plot empty_diagram blank_canvas) = []"
    by blast
  from bad t2 pos t4 zero u1 u3 show ?thesis by blast
qed

text \<open>
  Claim C1 as it was stated: every input of invalid shape (matrix not square, size
  different from the number of labels, \<open>N = 0\<close>, \<open>N = 1\<close>) makes the render call fail
  before any call on the canvas. It does not hold: a diagram with one node is rendered
  without failure and its arc is stroked; the empty diagram is rendered without failure;
  and a diagram with a short row fails only after calls have been made.
\<close>

theorem shape_validation_counterexample:
  "input_shape_violation scenarioD
   \<and> panicked (Plot scenarioD blank_canvas) = None
   \<and> take 3 (issued blank_canvas (Plot scenarioD blank_canvas)) =
        [SetLineWidth 2, SetColor grey,
         Stroke (arc_path (canvas_center blank_canvas) (canvas_radius blank_canvas) 1 0)]
   \<and> input_shape_violation empty_diagram
   \<and> panicked (Plot empty_diagram blank_canvas) = None
   \<and> input_shape_violation short_row
   \<and> issued blank_canvas (Plot short_row blank_canvas) \<noteq> []"
proof -
  have d1: "input_shape_violation scenarioD"
    by (simp add: input_shape_violation_def scenarioD_def)
  have d2: "panicked (Plot scenarioD blank_canvas) = None"
    by (simp add: panicked_Plot renders_ok_def scenarioD_def)
  have "0 < length (Flow scenarioD)" and len: "length (Flow scenarioD) = 1"
    by (simp_all add: scenarioD_def)
  then have d3: "take 3 (issued blank_canvas (Plot scenarioD blank_canvas)) =
        [SetLineWidth 2, SetColor grey,
         Stroke (arc_path (canvas_center blank_canvas) (canvas_radius blank_canvas) 1 0)]"
    using first_calls_Plot [of scenarioD blank_canvas] by (simp only: arc_calls_def)
  have e1: "input_shape_violation empty_diagram"
    by (simp add: input_shape_violation_def empty_diagram_def)
  have e2: "panicked (Plot empty_diagram blank_canvas) = None"
    by (simp add: panicked_Plot renders_ok_def empty_diagram_def)
  have s1: "input_shape_violation short_row"
    by (simp add: input_shape_violation_def square_def short_row_def)
  have "0 < length (Flow short_row)"
    by (simp add: short_row_def)
  then have "take 3 (issued blank_canvas (Plot short_row blank_canvas)) \<noteq> []"
    using first_calls_Plot [of short_row blank_canvas] by (simp only: arc_calls_def) simp
  then have s2: "issued blank_canvas (Plot short_row blank_canvas) \<noteq> []"
    by auto
  from d1 d2 d3 e1 e2 s1 s2 show ?thesis by blast
qed

section \<open>The all-zero matrix\<close>

text \<open>
  Claim C2. For a flow matrix whose entries are all zero (square, with labels nil or
  covering every node, as the input contract has it) the render call succeeds. It
  makes exactly the calls of the node section: one arc for every node and, when labels
  are present, the identity label and the volume label of every node, each filled
  twice. It strokes no chord, and the division of an entry by the largest entry is
  never evaluated, so no stroke width comes from a division by zero.
\<close>

theorem all_zero_render:
  "square c \<Longrightarrow> labels_cover c \<Longrightarrow> all_zero c \<Longrightarrow>
     panicked (Plot c canvas) = None
   \<and> divisions (Plot c canvas) = []
   \<and> issued canvas (Plot c canvas) = node_section c (canvas_center canvas) (canvas_radius canvas)
   \<and> filter is_chord_stroke (issued canvas (Plot c canvas)) = []
   \<and> filter is_arc_stroke (issued canvas (Plot c canvas)) =
        map (\<lambda>i. Stroke (arc_path (canvas_center canvas) (canvas_radius canvas) (length (Flow c)) i))
            [0..<length (Flow c)]
   \<and> filter is_label_fill (issued canvas (Plot c canvas)) =
        concat (map (\<lambda>i. case Labels c of
                      None \<Rightarrow> []
                    | Some labels \<Rightarrow>
                        identity_label_calls (canvas_center canvas) (canvas_radius canvas)
                          (length (Flow c)) i (labels ! i) @
                        volume_label_calls (canvas_center canvas) (canvas_radius canvas)
                          (length (Flow c)) i (volume_text c i))
                    [0..<length (Flow c)])
   \<and> length (filter is_label_fill (issued canvas (Plot c canvas)))
        = (case Labels c of None \<Rightarrow> 0 | Some labels \<Rightarrow> 4 * length (Flow c))"
proof -
  assume sq: "square c" and lc: "labels_cover c" and z: "all_zero c"
  have ok: "renders_ok c"
    using sq lc by (rule contract_renders_ok)
  have none: "positive_entries (Flow c) = []"
    using z by (rule all_zero_no_entries)
  have 1: "panicked (Plot c canvas) = None"
    using ok by (simp add: panicked_Plot)
  have 2: "divisions (Plot c canvas) = []"
    using ok none by (simp add: divisions_Plot_ok)
  have 3: "issued canvas (Plot c canvas) = node_section c (canvas_center canvas) (canvas_radius canvas)"
    using ok none by (simp add: issued_Plot_ok chord_section_def)
  have 4: "filter is_chord_stroke (issued canvas (Plot c canvas)) = []"
    unfolding 3 by (simp add: filter_node_section)
  have 5: "filter is_arc_stroke (issued canvas (Plot c canvas)) =
        map (\<lambda>i. Stroke (arc_path (canvas_center canvas) (canvas_radius canvas) (length (Flow c)) i))
            [0..<length (Flow c)]"
    unfolding 3 by (simp add: filter_node_section)
  have 6: "filter is_label_fill (issued canvas (Plot c canvas)) =
        concat (map (\<lambda>i. case Labels c of
                      None \<Rightarrow> []
                    | Some labels \<Rightarrow>
                        identity_label_calls (canvas_center canvas) (canvas_radius canvas)
                          (length (Flow c)) i (labels ! i) @
                        volume_label_calls (canvas_center canvas) (canvas_radius canvas)
                          (length (Flow c)) i (volume_text c i))
                    [0..<length (Flow c)])"
    unfolding 3 by (simp add: filter_node_section)
  have 7: "length (filter is_label_fill (issued canvas (Plot c canvas)))
        = (case Labels c of None \<Rightarrow> 0 | Some labels \<Rightarrow> 4 * length (Flow c))"
    unfolding 3 by (rule length_label_fills)
  from 1 2 3 4 5 6 7 show ?thesis by blast
qed

theorem all_zero_render_witness:
  "square scenarioB \<and> labels_cover scenarioB \<and> all_zero scenarioB
   \<and> panicked (Plot scenarioB blank_canvas) = None
   \<and> divisions (Plot scenarioB blank_canvas) = []
   \<and> filter is_chord_stroke (issued blank_canvas (Plot scenarioB blank_canvas)) = []
   \<and> length (filter is_arc_stroke (issued blank_canvas (Plot scenarioB blank_canvas))) = 2
   \<and> length (filter is_label_fill (issued blank_canvas (Plot scenarioB blank_canvas))) = 8"
proof -
  have sq: "square scenarioB"
    by (simp add: square_def scenarioB_def)
  have lc: "labels_cover scenarioB"
    by (simp add: labels_cover_def scenarioB_def)
  have z: "all_zero scenarioB"
    by (simp add: all_zero_def scenarioB_def)
  have n: "length (Flow scenarioB) = 2" and l: "Labels scenarioB = Some [''A'', ''B'']"
    by (simp_all add: scenarioB_def)
  note T = all_zero_render [OF sq lc z, of blank_canvas]
  from T have p1: "panicked (Plot scenarioB blank_canvas) = None"
    by (elim conjE)
  from T have p2: "divisions (Plot scenarioB blank_canvas) = []"
    by (elim conjE)
  from T have p4: "filter is_chord_stroke (issued blank_canvas (Plot scenarioB blank_canvas)) = []"
    by (elim conjE)
  from T have p5: "filter is_arc_stroke (issued blank_canvas (Plot scenarioB blank_canvas)) =
        map (\<lambda>i. Stroke (arc_path (canvas_center blank_canvas) (canvas_radius blank_canvas)
                            (length (Flow scenarioB)) i))
            [0..<length (Flow scenarioB)]"
    by (elim conjE)
  from T have p7: "length (filter is_label_fill (issued blank_canvas (Plot scenarioB blank_canvas)))
        = (case Labels scenarioB of None \<Rightarrow> 0 | Some labels \<Rightarrow> 4 * length (Flow scenarioB))"
    by (elim conjE)
  have q5: "length (filter is_arc_stroke (issued blank_canvas (Plot scenarioB blank_canvas))) = 2"
    unfolding p5 by (simp add: n)
  have q7: "length (filter is_label_fill (issued blank_canvas (Plot scenarioB blank_canvas))) = 8"
    unfolding p7 by (simp add: n l)
  from sq lc z p1 p2 p4 q5 q7 show ?thesis by blast
qed

section \<open>Chords and their widths\<close>






section \<open>Layout of the nodes\<close>

text \<open>
  Claim C4. For \<open>N > 1\<close> nodes and any canvas size, the arc stroked for node \<open>i\<close> lies
  on the circle around the centre of the canvas, which is the point at half the width
  and half the height that the canvas reports, with radius 0.35 times the smaller of
  width and height; it starts at \<open>centerAngle i - angleStep / 3\<close> and ends at
  \<open>centerAngle i + angleStep / 3\<close>, where \<open>centerAngle i = i * (2 pi / N)\<close>. The
  centre angle is strictly increasing in \<open>i\<close>, the arc of a node ends before the arc
  of the next node starts, and the arc of the last node ends before the arc of node 0
  starts one turn later.
\<close>

theorem node_layout:
  "1 < length (Flow c) \<Longrightarrow> square c \<Longrightarrow> labels_cover c \<Longrightarrow> i < length (Flow c) \<Longrightarrow>
     filter is_arc_stroke (issued canvas (Plot c canvas)) ! i =
       Stroke [MoveComp (pointOnCircle (canvas_center canvas) (canvas_radius canvas)
                           (centerAngle (length (Flow c)) i - 2 * pi / real (length (Flow c)) / 3)),
               ArcComp (canvas_center canvas) (canvas_radius canvas)
                  (centerAngle (length (Flow c)) i - 2 * pi / real (length (Flow c)) / 3)
                  ((centerAngle (length (Flow c)) i + 2 * pi / real (length (Flow c)) / 3)
                   - (centerAngle (length (Flow c)) i - 2 * pi / real (length (Flow c)) / 3))]
   \<and> length (filter is_arc_stroke (issued canvas (Plot c canvas))) = length (Flow c)
   \<and> centerAngle (length (Flow c)) i = real i * (2 * pi / real (length (Flow c)))
   \<and> canvas_center canvas = \<lparr>X = X (Size canvas) / 2, Y = Y (Size canvas) / 2\<rparr>
   \<and> canvas_radius canvas = 0.35 * min (X (Size canvas)) (Y (Size canvas))
   \<and> (\<forall>j. i < j \<longrightarrow> centerAngle (length (Flow c)) i < centerAngle (length (Flow c)) j)
   \<and> (centerAngle (length (Flow c)) i + 2 * pi / real (length (Flow c)) / 3
        < centerAngle (length (Flow c)) (Suc i) - 2 * pi / real (length (Flow c)) / 3)
   \<and> (centerAngle (length (Flow c)) (length (Flow c) - 1) + 2 * pi / real (length (Flow c)) / 3
        < centerAngle (length (Flow c)) 0 - 2 * pi / real (length (Flow c)) / 3 + 2 * pi)"
proof -
  assume n: "1 < length (Flow c)" and sq: "square c" and lc: "labels_cover c"
    and i: "i < length (Flow c)"
  have ok: "renders_ok c"
    using sq lc by (rule contract_renders_ok)
  have pos: "0 < length (Flow c)"
    using n by arith
  have 1: "filter is_arc_stroke (issued canvas (Plot c canvas)) ! i =
       Stroke [MoveComp (pointOnCircle (canvas_center canvas) (canvas_radius canvas)
                           (centerAngle (length (Flow c)) i - 2 * pi / real (length (Flow c)) / 3)),
               ArcComp (canvas_center canvas) (canvas_radius canvas)
                  (centerAngle (length (Flow c)) i - 2 * pi / real (length (Flow c)) / 3)
                  ((centerAngle (length (Flow c)) i + 2 * pi / real (length (Flow c)) / 3)
                   - (centerAngle (length (Flow c)) i - 2 * pi / real (length (Flow c)) / 3))]"
    unfolding arc_strokes_Plot_ok [OF ok] using i
    by (simp add: arc_path_def arc_start_def arc_end_def)
  have 2: "length (filter is_arc_stroke (issued canvas (Plot c canvas))) = length (Flow c)"
    unfolding arc_strokes_Plot_ok [OF ok] by simp
  have 3: "centerAngle (length (Flow c)) i = real i * (2 * pi / real (length (Flow c)))"
    by (simp add: centerAngle_def)
  have 4: "canvas_center canvas = \<lparr>X = X (Size canvas) / 2, Y = Y (Size canvas) / 2\<rparr>"
    by (simp add: canvas_center_def)
  have 5: "canvas_radius canvas = 0.35 * min (X (Size canvas)) (Y (Size canvas))"
    by (simp add: canvas_radius_def)
  have 6: "\<forall>j. i < j \<longrightarrow> centerAngle (length (Flow c)) i < centerAngle (length (Flow c)) j"
    using centerAngle_strict_mono [OF pos] by blast
  have 7: "centerAngle (length (Flow c)) i + 2 * pi / real (length (Flow c)) / 3
        < centerAngle (length (Flow c)) (Suc i) - 2 * pi / real (length (Flow c)) / 3"
    using arcs_disjoint [OF pos, of i] by (simp only: arc_end_def arc_start_def)
  have 8: "centerAngle (length (Flow c)) (length (Flow c) - 1) + 2 * pi / real (length (Flow c)) / 3
        < centerAngle (length (Flow c)) 0 - 2 * pi / real (length (Flow c)) / 3 + 2 * pi"
    using arcs_wrap_disjoint [OF pos] by (simp only: arc_end_def arc_start_def)
  from 1 2 3 4 5 6 7 8 show ?thesis by blast
qed

theorem node_layout_witness:
  "1 < length (Flow scenarioA) \<and> square scenarioA \<and> labels_cover scenarioA
   \<and> 1 < length (Flow scenarioA)
   \<and> length (filter is_arc_stroke (issued blank_canvas (Plot scenarioA blank_canvas))) = 3
   \<and> centerAngle 3 1 = 2 * pi / 3
   \<and> canvas_center blank_canvas = \<lparr>X = 200, Y = 150\<rparr>
   \<and> canvas_radius blank_canvas = 105
   \<and> centerAngle 3 1 < centerAngle 3 2
   \<and> centerAngle 3 1 + 2 * pi / 3 / 3 < centerAngle 3 2 - 2 * pi / 3 / 3"
proof -
  have n: "1 < length (Flow scenarioA)" and len: "length (Flow scenarioA) = 3"
    by (simp_all add: scenarioA_def)
  have sq: "square scenarioA"
    by (simp add: square_def scenarioA_def)
  have lc: "labels_cover scenarioA"
    by (simp add: labels_cover_def scenarioA_def)
  note T = node_layout [OF n sq lc n, of blank_canvas, unfolded len]
  from T have t2: "length (filter is_arc_stroke (issued blank_canvas (Plot scenarioA blank_canvas))) = 3"
    by (elim conjE)
  from T have t3: "centerAngle 3 1 = real 1 * (2 * pi / real 3)"
    by (elim conjE)
  from T have t4: "canvas_center blank_canvas
      = \<lparr>X = X (Size blank_canvas) / 2, Y = Y (Size blank_canvas) / 2\<rparr>"
    by (elim conjE)
  from T have t5: "canvas_radius blank_canvas
      = 0.35 * min (X (Size blank_canvas)) (Y (Size blank_canvas))"
    by (elim conjE)
  from T have t6: "\<forall>j. 1 < j \<longrightarrow> centerAngle 3 1 < centerAngle 3 j"
    by (elim conjE)
  from T have t7: "centerAngle 3 1 + 2 * pi / real 3 / 3 < centerAngle 3 (Suc 1) - 2 * pi / real 3 / 3"
    by (elim conjE)
  have q3: "centerAngle 3 1 = 2 * pi / 3"
    using t3 by simp
  have q4: "canvas_center blank_canvas = \<lparr>X = 200, Y = 150\<rparr>"
    using t4 by (simp add: blank_canvas_def)
  have q5: "canvas_radius blank_canvas = 105"
    using t5 by (simp add: blank_canvas_def)
  have q6: "centerAngle 3 1 < centerAngle 3 2"
    using t6 by simp
  have q7: "centerAngle 3 1 + 2 * pi / 3 / 3 < centerAngle 3 2 - 2 * pi / 3 / 3"
    using t7 by (simp add: numeral_2_eq_2)
  from n sq lc t2 q3 q4 q5 q6 q7 show ?thesis by blast
qed

section \<open>Placement of the labels\<close>




section \<open>The text of the volume label\<close>



section \<open>Layering\<close>

text \<open>
  Claim C7. In the sequence of calls that one render makes, for every input, every
  stroke of an arc and every fill of a label comes before every stroke of a chord: if
  the call at position \<open>k\<close> strokes a chord and the call at position \<open>l\<close> strokes an
  arc or fills a label, then \<open>l < k\<close>.
\<close>

theorem arcs_and_labels_before_chords:
  "k < length (issued canvas (Plot c canvas)) \<Longrightarrow>
   l < length (issued canvas (Plot c canvas)) \<Longrightarrow>
   is_chord_stroke (issued canvas (Plot c canvas) ! k) \<Longrightarrow>
   is_arc_stroke (issued canvas (Plot c canvas) ! l) \<or> is_label_fill (issued canvas (Plot c canvas) ! l) \<Longrightarrow>
   l < k"
proof -
  assume a: "k < length (issued canvas (Plot c canvas))"
    "l < length (issued canvas (Plot c canvas))"
    "is_chord_stroke (issued canvas (Plot c canvas) ! k)"
    "is_arc_stroke (issued canvas (Plot c canvas) ! l) \<or> is_label_fill (issued canvas (Plot c canvas) ! l)"
  obtain xs ys where s: "issued canvas (Plot c canvas) = xs @ ys"
    and x: "filter is_chord_stroke xs = []" and y: "filter is_arc_or_label ys = []"
    using issued_Plot_split by blast
  from a(4) have "is_arc_or_label (issued canvas (Plot c canvas) ! l)"
    by (simp add: is_arc_or_label_def)
  with a(1,2,3) show ?thesis
    unfolding s by (rule append_order [OF x y])
qed

lemma issued_unlabelled:
  "issued blank_canvas (Plot unlabelled blank_canvas) =
     arc_calls (canvas_center blank_canvas) (canvas_radius blank_canvas) 2 0
     @ arc_calls (canvas_center blank_canvas) (canvas_radius blank_canvas) 2 1
     @ chord_calls (canvas_center blank_canvas) (canvas_radius blank_canvas) 2 0 1
          (7 / maxWeight (Flow unlabelled) * 3) (mainColor 0 1)"
proof -
  have ok: "renders_ok unlabelled"
    by (simp add: renders_ok_def unlabelled_def)
  have n: "length (Flow unlabelled) = 2" and l: "Labels unlabelled = None"
    and clr: "Color unlabelled = mainColor"
    by (simp_all add: unlabelled_def)
  have u: "[0..<2] = [0, 1]"
    by (simp add: upt_rec)
  show ?thesis
    using ok
    by (simp add: issued_Plot_ok node_section_unlabelled l n u chord_section_def
        positive_entries_unlabelled chord_of_def clr)
qed

theorem arcs_and_labels_before_chords_witness:
  "8 < length (issued blank_canvas (Plot unlabelled blank_canvas))
   \<and> 2 < length (issued blank_canvas (Plot unlabelled blank_canvas))
   \<and> is_chord_stroke (issued blank_canvas (Plot unlabelled blank_canvas) ! 8)
   \<and> is_arc_stroke (issued blank_canvas (Plot unlabelled blank_canvas) ! 2)
   \<and> (2::nat) < 8"
proof -
  have k: "8 < length (issued blank_canvas (Plot unlabelled blank_canvas))"
    by (simp add: issued_unlabelled arc_calls_def chord_calls_def)
  have l: "2 < length (issued blank_canvas (Plot unlabelled blank_canvas))"
    by (simp add: issued_unlabelled arc_calls_def chord_calls_def)
  have ck: "is_chord_stroke (issued blank_canvas (Plot unlabelled blank_canvas) ! 8)"
    by (simp add: issued_unlabelled arc_calls_def chord_calls_def chord_path_def)
  have al: "is_arc_stroke (issued blank_canvas (Plot unlabelled blank_canvas) ! 2)"
    by (simp add: issued_unlabelled arc_calls_def chord_calls_def arc_path_def)
  from al have al': "is_arc_stroke (issued blank_canvas (Plot unlabelled blank_canvas) ! 2)
      \<or> is_label_fill (issued blank_canvas (Plot unlabelled blank_canvas) ! 2)"
    by (rule disjI1)
  have "(2::nat) < 8"
    by (rule arcs_and_labels_before_chords [OF k l ck al'])
  with k l ck al show ?thesis by blast
qed

section \<open>Determinism\<close>

text \<open>
  Claim C8. Two render calls with the same labels, the same flow matrix and the same
  colour function, on canvases of equal size, issue the same sequence of calls (paths,
  widths, colours, texts and styles, in the same order) and end the same way, whatever
  had been drawn on either canvas before. What a call issues is what it appends to the
  calls already on its canvas.
\<close>

theorem render_deterministic:
  "Flow c1 = Flow c2 \<Longrightarrow> Labels c1 = Labels c2 \<Longrightarrow> Color c1 = Color c2 \<Longrightarrow>
   Size canvas1 = Size canvas2 \<Longrightarrow>
     issued canvas1 (Plot c1 canvas1) = issued canvas2 (Plot c2 canvas2)
   \<and> panicked (Plot c1 canvas1) = panicked (Plot c2 canvas2)
   \<and> calls (canvas_after (Plot c1 canvas1)) = calls canvas1 @ issued canvas1 (Plot c1 canvas1)
   \<and> calls (canvas_after (Plot c2 canvas2)) = calls canvas2 @ issued canvas2 (Plot c2 canvas2)"
proof -
  assume f: "Flow c1 = Flow c2" and l: "Labels c1 = Labels c2" and k: "Color c1 = Color c2"
    and s: "Size canvas1 = Size canvas2"
  have c: "c1 = c2"
    using f l k by (cases c1, cases c2) simp
  have 1: "issued canvas1 (Plot c1 canvas1) = issued canvas2 (Plot c2 canvas2)"
    unfolding c using s by (rule issued_Plot_Size)
  have 2: "panicked (Plot c1 canvas1) = panicked (Plot c2 canvas2)"
    unfolding c by (simp add: panicked_Plot)
  have 3: "calls (canvas_after (Plot c canvas)) = calls canvas @ issued canvas (Plot c canvas)"
    for c canvas
    by (subst canvas_after_Plot) simp
  from 1 2 3 show ?thesis by blast
qed

theorem render_deterministic_witness:
  "Size blank_canvas = Size used_canvas
   \<and> calls blank_canvas \<noteq> calls used_canvas
   \<and> issued blank_canvas (Plot scenarioA blank_canvas) = issued used_canvas (Plot scenarioA used_canvas)
   \<and> panicked (Plot scenarioA blank_canvas) = panicked (Plot scenarioA used_canvas)"
proof -
  have s: "Size blank_canvas = Size used_canvas"
    by (simp add: blank_canvas_def used_canvas_def)
  have d: "calls blank_canvas \<noteq> calls used_canvas"
    by (simp add: blank_canvas_def used_canvas_def)
  from render_deterministic [OF refl refl refl s, of scenarioA] s d
  show ?thesis by blast
qed

section \<open>Rendering without labels\<close>

text \<open>
  Claim C9. If the \<open>Labels\<close> field is nil, the render call succeeds whatever the shape
  of the matrix; the calls it makes are the arc of every node, in order, followed by
  the chord of every positive entry; no text is filled at all.
\<close>

theorem nil_labels_render:
  "Labels c = None \<Longrightarrow>
     panicked (Plot c canvas) = None
   \<and> issued canvas (Plot c canvas) =
           concat (map (arc_calls (canvas_center canvas) (canvas_radius canvas) (length (Flow c)))
                       [0..<length (Flow c)])
           @ chord_section c (canvas_center canvas) (canvas_radius canvas)
   \<and> filter is_label_fill (issued canvas (Plot c canvas)) = []
   \<and> filter is_arc_stroke (issued canvas (Plot c canvas)) =
           map (\<lambda>i. Stroke (arc_path (canvas_center canvas) (canvas_radius canvas) (length (Flow c)) i))
               [0..<length (Flow c)]
   \<and> filter is_chord_stroke (issued canvas (Plot c canvas)) =
           map (\<lambda>e. Stroke (chord_path (canvas_center canvas) (canvas_radius canvas)
                                (length (Flow c)) (fst e) (fst (snd e))))
               (positive_entries (Flow c))"
proof -
  assume nil: "Labels c = None"
  then have ok: "renders_ok c"
    by (simp add: renders_ok_def)
  have 1: "panicked (Plot c canvas) = None"
    using ok by (simp add: panicked_Plot)
  have 2: "issued canvas (Plot c canvas) =
           concat (map (arc_calls (canvas_center canvas) (canvas_radius canvas) (length (Flow c)))
                       [0..<length (Flow c)])
           @ chord_section c (canvas_center canvas) (canvas_radius canvas)"
    using ok nil by (simp add: issued_Plot_ok node_section_unlabelled)
  have 3: "filter is_label_fill (issued canvas (Plot c canvas)) = []"
    using ok nil by (simp add: issued_Plot_ok filter_node_section filter_chord_section concat_map_Nil)
  have 4: "filter is_arc_stroke (issued canvas (Plot c canvas)) =
           map (\<lambda>i. Stroke (arc_path (canvas_center canvas) (canvas_radius canvas) (length (Flow c)) i))
               [0..<length (Flow c)]"
    using ok by (simp add: issued_Plot_ok filter_node_section filter_chord_section)
  have 5: "filter is_chord_stroke (issued canvas (Plot c canvas)) =
           map (\<lambda>e. Stroke (chord_path (canvas_center canvas) (canvas_radius canvas)
                                (length (Flow c)) (fst e) (fst (snd e))))
               (positive_entries (Flow c))"
    using ok by (simp add: issued_Plot_ok filter_node_section filter_chord_section)
  from 1 2 3 4 5 show ?thesis by blast
qed

theorem nil_labels_render_witness:
  "Labels unlabelled = None
   \<and> panicked (Plot unlabelled blank_canvas) = None
   \<and> filter is_label_fill (issued blank_canvas (Plot unlabelled blank_canvas)) = []
   \<and> length (filter is_arc_stroke (issued blank_canvas (Plot unlabelled blank_canvas))) = 2
   \<and> length (filter is_chord_stroke (issued blank_canvas (Plot unlabelled blank_canvas))) = 1"
proof -
  have h: "Labels unlabelled = None"
    by (simp add: unlabelled_def)
  have n: "length (Flow unlabelled) = 2"
    by (simp add: unlabelled_def)
  note T = nil_labels_render [OF h, of blank_canvas]
  from T have 1: "panicked (Plot unlabelled blank_canvas) = None"
    by (elim conjE)
  from T have 3: "filter is_label_fill (issued blank_canvas (Plot unlabelled blank_canvas)) = []"
    by (elim conjE)
  from T have 4: "filter is_arc_stroke (issued blank_canvas (Plot unlabelled blank_canvas)) =
           map (\<lambda>i. Stroke (arc_path (canvas_center blank_canvas) (canvas_radius blank_canvas)
                               (length (Flow unlabelled)) i))
               [0..<length (Flow unlabelled)]"
    by (elim conjE)
  from T have 5: "filter is_chord_stroke (issued blank_canvas (Plot unlabelled blank_canvas)) =
           map (\<lambda>e. Stroke (chord_path (canvas_center blank_canvas) (canvas_radius blank_canvas)
                                (length (Flow unlabelled)) (fst e) (fst (snd e))))
               (positive_entries (Flow unlabelled))"
    by (elim conjE)
  have q4: "length (filter is_arc_stroke (issued blank_canvas (Plot unlabelled blank_canvas))) = 2"
    unfolding 4 by (simp add: n)
  have q5: "length (filter is_chord_stroke (issued blank_canvas (Plot unlabelled blank_canvas))) = 1"
    unfolding 5 by (simp add: positive_entries_unlabelled)
  from h 1 3 q4 q5 show ?thesis by blast
qed

section \<open>Index accesses\<close>

text \<open>
  Claim C10. When the matrix is square with every row of length \<open>N\<close> and the labels
  are nil or at least \<open>N\<close> long, no index access of the render call is out of range:
  the call does not panic. Without the precondition an access can be out of range: a
  matrix with a short row, and a label slice that is too short, both end the call with
  an index-out-of-range panic.
\<close>

theorem index_accesses_in_bounds:
  "(square c \<and> labels_cover c \<longrightarrow> panicked (Plot c canvas) = None)
   \<and> \<not> square short_row
   \<and> panicked (Plot short_row canvas) = Some IndexOutOfRange
   \<and> \<not> labels_cover short_labels
   \<and> panicked (Plot short_labels canvas) = Some IndexOutOfRange"
proof -
  have 1: "square c \<and> labels_cover c \<longrightarrow> panicked (Plot c canvas) = None"
    using contract_renders_ok [of c] by (simp add: panicked_Plot)
  have 2: "\<not> square short_row"
    by (simp add: square_def short_row_def)
  have 3: "panicked (Plot short_row canvas) = Some IndexOutOfRange"
    by (simp add: panicked_Plot renders_ok_def short_row_def)
  have 4: "\<not> labels_cover short_labels"
    by (simp add: labels_cover_def short_labels_def)
  have 5: "panicked (Plot short_labels canvas) = Some IndexOutOfRange"
    by (simp add: panicked_Plot renders_ok_def short_labels_def)
  from 1 2 3 4 5 show ?thesis by blast
qed

theorem index_accesses_in_bounds_witness:
  "square scenarioA \<and> labels_cover scenarioA \<and> panicked (Plot scenarioA blank_canvas) = None"
  using index_accesses_in_bounds [of scenarioA blank_canvas]
  by (simp add: square_def labels_cover_def scenarioA_def)

end
